theory Spec2Isabelle
  imports Complex_Main "HOL-Library.AList"
begin

section \<open>Shared types (packages/shared/types.ts)\<close>

text \<open>
  Dates are modelled by their time value (milliseconds since the epoch, an integer), and
  every \<^verbatim>\<open>new Date()\<close> of the source is a parameter \<open>now\<close> of the function that
  evaluates it. Interfaces that other interfaces extend are extensible records, and a
  function that is generic in \<^verbatim>\<open>T extends SharedEntity\<close> takes any extension of the record.
  String literal types are datatypes with capitalised constructors. The field \<^verbatim>\<open>id\<close> is
  written \<open>id'\<close> and the field \<^verbatim>\<open>value\<close> is written \<open>value'\<close>.
\<close>

record SharedEntity =
  id' :: string
  createdAt :: int
  updatedAt :: int

datatype SharedEventType = Created | Updated | Deleted

datatype Origin = Backend | Frontend

record 'p SharedEvent =
  type :: SharedEventType
  payload :: 'p
  timestamp :: int
  source :: Origin

text \<open>
  A JavaScript number that results from \<^verbatim>\<open>Math.ceil\<close> of a quotient of two integers:
  an integer, or \<^verbatim>\<open>Infinity\<close> (positive dividend, divisor zero), or \<^verbatim>\<open>NaN\<close> (zero by zero).
\<close>

datatype number = Num int | Infinity | NaN

datatype SortOrder = Asc | Desc

record 'a PaginatedResponse =
  items :: "'a list"
  total :: nat
  page :: int
  pageSize :: int
  totalPages :: number

record PaginationParams =
  page :: int
  pageSize :: int
  sortBy :: "string option"
  sortOrder :: "SortOrder option"

datatype Role = Admin | User | Guest

record UserDto = SharedEntity +
  email :: string
  name :: string
  role :: Role

section \<open>Validation results (packages/shared/validation.ts)\<close>

record ValidationError =
  field :: string
  message :: string
  code :: string

text \<open>
  An optional field \<^verbatim>\<open>f?: T\<close> is an \<open>option\<close>: \<open>None\<close> stands for a read of the field
  that yields \<^verbatim>\<open>undefined\<close>.
\<close>

record ValidationResult =
  ok :: bool
  errors :: "ValidationError list option"

definition validationSuccess :: ValidationResult where
  "validationSuccess = \<lparr>ValidationResult.ok = True, errors = None\<rparr>"

definition validationError :: "ValidationError list \<Rightarrow> ValidationResult" where
  "validationError errs = \<lparr>ValidationResult.ok = False, errors = Some errs\<rparr>"

text \<open>
  The \<^verbatim>\<open>for\<close> loop of \<^verbatim>\<open>combineValidations\<close>, with the accumulator \<^verbatim>\<open>allErrors\<close>. The test
  \<^verbatim>\<open>!result.ok && result.errors\<close> holds when \<open>ok\<close> is false and \<open>errors\<close> is an array
  (every array is truthy, the empty one too).
\<close>

fun combineLoop :: "ValidationError list \<Rightarrow> ValidationResult list \<Rightarrow> ValidationError list" where
  "combineLoop allErrors [] = allErrors"
| "combineLoop allErrors (result # results) =
     (case errors result of
        Some errs \<Rightarrow>
          if \<not> ValidationResult.ok result then combineLoop (allErrors @ errs) results
          else combineLoop allErrors results
      | None \<Rightarrow> combineLoop allErrors results)"

definition combineValidations :: "ValidationResult list \<Rightarrow> ValidationResult" where
  "combineValidations results =
     (let allErrors = combineLoop [] results
      in if length allErrors > 0 then validationError allErrors else validationSuccess)"

section \<open>Results and entity helpers (packages/shared/types.ts, utils.ts)\<close>

record ('a, 'e) Result =
  ok :: bool
  value' :: "'a option"
  error :: "'e option"

text \<open>
  \<^verbatim>\<open>createSuccess\<close> is generic in \<open>T\<close>, and the repository calls it with \<^verbatim>\<open>undefined\<close>
  at \<open>T = void\<close>; its argument is therefore an \<open>option\<close>, with \<open>None\<close> for \<^verbatim>\<open>undefined\<close>.
  Every call of \<^verbatim>\<open>createError\<close> in the repository passes a string.
\<close>

definition createSuccess :: "'a option \<Rightarrow> ('a, 'e) Result" where
  "createSuccess v = \<lparr>ok = True, value' = v, error = None\<rparr>"

definition createError :: "'e \<Rightarrow> ('a, 'e) Result" where
  "createError e = \<lparr>ok = False, value' = None, error = Some e\<rparr>"

datatype Error = Error string | TypeError

definition unwrapResult :: "('a, string) Result \<Rightarrow> Error + 'a" where
  "unwrapResult result =
     (if \<not> ok result then
        Inl (Error (case error result of Some e \<Rightarrow> e | None \<Rightarrow> ''Unknown error''))
      else case value' result of
        None \<Rightarrow> Inl (Error ''Result value is undefined'')
      | Some v \<Rightarrow> Inr v)"

definition touchEntity :: "int \<Rightarrow> 'z SharedEntity_scheme \<Rightarrow> 'z SharedEntity_scheme" where
  "touchEntity now entity = entity\<lparr>updatedAt := now\<rparr>"

subsection \<open>Pagination\<close>

text \<open>
  \<^verbatim>\<open>Array.prototype.slice(start, end)\<close> on integer arguments: a negative index counts
  from the end of the array, both indices are clamped to the array, and an empty range
  yields the empty array. It never throws.
\<close>

definition slice :: "'a list \<Rightarrow> int \<Rightarrow> int \<Rightarrow> 'a list" where
  "slice xs start endIdx =
     (let len = int (length xs);
          k = (if start < 0 then max (len + start) 0 else min start len);
          final = (if endIdx < 0 then max (len + endIdx) 0 else min endIdx len)
      in take (nat (final - k)) (drop (nat k) xs))"

text \<open>
  \<^verbatim>\<open>Math.ceil(total / params.pageSize)\<close> for an array length \<open>total\<close> and an integer
  page size. For these operands the rounded floating-point quotient has the same ceiling as
  the exact quotient.
\<close>

definition ceilDiv :: "nat \<Rightarrow> int \<Rightarrow> number" where
  "ceilDiv n d =
     (if d = 0 then (if n = 0 then NaN else Infinity)
      else Num \<lceil>real n / real_of_int d\<rceil>)"

definition paginate :: "'a list \<Rightarrow> PaginationParams \<Rightarrow> 'a PaginatedResponse" where
  "paginate xs params =
     (let total = length xs;
          totalPages = ceilDiv total (pageSize params);
          start = (page params - 1) * pageSize params;
          endIdx = start + pageSize params
      in \<lparr>items = slice xs start endIdx,
          total = total,
          PaginatedResponse.page = page params,
          PaginatedResponse.pageSize = pageSize params,
          totalPages = totalPages\<rparr>)"

section \<open>Backend models (packages/backend/models.ts)\<close>

record BackendUser = UserDto +
  passwordHash :: string
  lastLoginAt :: "int option"
  loginCount :: int
  isVerified :: bool

definition toUserDto :: "'z BackendUser_scheme \<Rightarrow> UserDto" where
  "toUserDto u =
     \<lparr>id' = id' u,
      createdAt = createdAt u,
      updatedAt = updatedAt u,
      email = email u,
      name = name u,
      role = role u\<rparr>"

section \<open>The in-memory repository (packages/backend/repository.ts)\<close>

text \<open>
  The \<^verbatim>\<open>Map\<close> of the class is a list of key-value pairs in insertion order:
  \<^verbatim>\<open>get\<close> is \<^const>\<open>map_of\<close>, \<^verbatim>\<open>has(k)\<close> is membership of \<open>k\<close> in the keys,
  \<^verbatim>\<open>set\<close> is \<^const>\<open>AList.update\<close> (an existing key keeps its place, a new key goes
  last), \<^verbatim>\<open>delete\<close> is \<^const>\<open>AList.delete\<close> and \<^verbatim>\<open>values()\<close> is \<open>map snd\<close>. Each method
  takes the repository and returns its result with the repository after the call. The
  methods are \<^verbatim>\<open>async\<close> without awaiting anything: each body runs to its end when called.
\<close>

record 'a InMemoryRepository =
  store :: "(string \<times> 'a) list"

definition newRepository :: "'a InMemoryRepository" where
  "newRepository = \<lparr>store = []\<rparr>"

definition notFound :: "string \<Rightarrow> string" where
  "notFound i = ''Entity with id '' @ i @ '' not found''"

definition findById ::
  "string \<Rightarrow> 'a InMemoryRepository \<Rightarrow> ('a, string) Result \<times> 'a InMemoryRepository" where
  "findById i repo =
     (case map_of (store repo) i of
        None \<Rightarrow> (createError (notFound i), repo)
      | Some entity \<Rightarrow> (createSuccess (Some entity), repo))"

definition findAll ::
  "'a InMemoryRepository \<Rightarrow> ('a list, string) Result \<times> 'a InMemoryRepository" where
  "findAll repo = (createSuccess (Some (map snd (store repo))), repo)"

definition findPaginated ::
  "PaginationParams \<Rightarrow> 'a InMemoryRepository \<Rightarrow>
   ('a PaginatedResponse, string) Result \<times> 'a InMemoryRepository" where
  "findPaginated params repo =
     (let xs = map snd (store repo)
      in (createSuccess (Some (paginate xs params)), repo))"

definition save ::
  "int \<Rightarrow> 'z SharedEntity_scheme \<Rightarrow> 'z SharedEntity_scheme InMemoryRepository \<Rightarrow>
   ('z SharedEntity_scheme, string) Result \<times> 'z SharedEntity_scheme InMemoryRepository" where
  "save now entity repo =
     (let touched = touchEntity now entity
      in (createSuccess (Some touched),
          repo\<lparr>store := AList.update (id' touched) touched (store repo)\<rparr>))"

definition delete ::
  "string \<Rightarrow> 'a InMemoryRepository \<Rightarrow> ('v, string) Result \<times> 'a InMemoryRepository" where
  "delete i repo =
     (if i \<notin> set (map fst (store repo)) then (createError (notFound i), repo)
      else (createSuccess None, repo\<lparr>store := AList.delete i (store repo)\<rparr>))"

section \<open>Event subscribers (packages/backend/repository.ts, packages/frontend/state.ts)\<close>

text \<open>
  A callback is a reference \<open>'h\<close> (compared by identity, as \<^verbatim>\<open>!==\<close> does) whose behaviour
  is given by \<open>call\<close>: applied to its argument in a world \<open>'w\<close> it returns or throws, and in
  both cases leaves a world behind. The world is whatever the callbacks act on outside the
  service; a callback that re-enters the service it is subscribed to is not modelled.
\<close>

datatype ('x, 'w) outcome = Returned (world: 'w) | Threw 'x (world: 'w)

text \<open>\<^verbatim>\<open>array.forEach(f => f(arg))\<close>: a throwing callback ends the iteration.\<close>

fun forEach ::
  "('h \<Rightarrow> 'a \<Rightarrow> 'w \<Rightarrow> ('x, 'w) outcome) \<Rightarrow> 'h list \<Rightarrow> 'a \<Rightarrow> 'w \<Rightarrow> ('x, 'w) outcome" where
  "forEach call [] arg w = Returned w"
| "forEach call (h # hs) arg w =
     (case call h arg w of
        Returned w' \<Rightarrow> forEach call hs arg w'
      | Threw x w' \<Rightarrow> Threw x w')"

text \<open>
  What a subscription method returns: \<^verbatim>\<open>undefined\<close> (a method declared \<^verbatim>\<open>void\<close>), or the
  closure \<^verbatim>\<open>() => { this.listeners = this.listeners.filter(l => l !== listener) }\<close>, which
  is determined by the listener it has captured.
\<close>

datatype 'h returned = Void | Unsubscribe 'h

text \<open>
  \<^verbatim>\<open>UserService\<close> and \<^verbatim>\<open>ItemService\<close>: their \<^verbatim>\<open>onEvent\<close> and \<^verbatim>\<open>emitEvent\<close> are the same
  code at two payload types, so one record with the field both use stands for either.
\<close>

record 'h Service =
  eventEmitters :: "'h list"

definition onEvent :: "'h \<Rightarrow> 'h Service \<Rightarrow> 'h returned \<times> 'h Service" where
  "onEvent emitter svc = (Void, svc\<lparr>eventEmitters := eventEmitters svc @ [emitter]\<rparr>)"

definition emitEvent ::
  "('h \<Rightarrow> 'p SharedEvent \<Rightarrow> 'w \<Rightarrow> ('x, 'w) outcome) \<Rightarrow> int \<Rightarrow> SharedEventType \<Rightarrow> 'p \<Rightarrow>
   'h Service \<Rightarrow> 'w \<Rightarrow> ('x, 'w) outcome" where
  "emitEvent call now t p svc w =
     (let event = \<lparr>type = t, payload = p, timestamp = now, source = Backend\<rparr>
      in forEach call (eventEmitters svc) event w)"

text \<open>
  The notification manager of the frontend. Its \<^verbatim>\<open>add\<close> and \<^verbatim>\<open>remove\<close> end in
  \<^verbatim>\<open>notifyListeners\<close>, which passes the current notifications to every listener.
\<close>

record ('n, 'h) NotificationManager =
  notifications :: "'n list"
  listeners :: "'h list"
  idCounter :: nat

definition subscribe ::
  "'h \<Rightarrow> ('n, 'h) NotificationManager \<Rightarrow> 'h returned \<times> ('n, 'h) NotificationManager" where
  "subscribe listener m = (Unsubscribe listener, m\<lparr>listeners := listeners m @ [listener]\<rparr>)"

text \<open>
  Calling what a subscription returned. The closure reads and replaces the listener list
  of the manager at the time of the call. A call of \<^verbatim>\<open>undefined\<close> is rejected by the
  type checker (the method is declared \<^verbatim>\<open>void\<close>); at run time it raises a \<^verbatim>\<open>TypeError\<close>.
\<close>

fun invoke ::
  "'h returned \<Rightarrow> ('n, 'h) NotificationManager \<Rightarrow> Error + ('n, 'h) NotificationManager" where
  "invoke Void m = Inl TypeError"
| "invoke (Unsubscribe listener) m =
     Inr (m\<lparr>listeners := filter (\<lambda>l. l \<noteq> listener) (listeners m)\<rparr>)"

definition notifyListeners ::
  "('h \<Rightarrow> 'n list \<Rightarrow> 'w \<Rightarrow> ('x, 'w) outcome) \<Rightarrow> ('n, 'h) NotificationManager \<Rightarrow> 'w \<Rightarrow>
   ('x, 'w) outcome" where
  "notifyListeners call m w = forEach call (listeners m) (notifications m) w"

section \<open>Observations and invariants\<close>

text \<open>
  To observe which callbacks run, each callback appends itself and its argument to a log
  that is part of the world, whether it then returns or throws.
\<close>

definition traced ::
  "('h \<Rightarrow> 'a \<Rightarrow> 'w \<Rightarrow> ('x, 'w) outcome) \<Rightarrow>
   'h \<Rightarrow> 'a \<Rightarrow> ('h \<times> 'a) list \<times> 'w \<Rightarrow> ('x, ('h \<times> 'a) list \<times> 'w) outcome" where
  "traced call h arg s =
     (case call h arg (snd s) of
        Returned w' \<Rightarrow> Returned (fst s @ [(h, arg)], w')
      | Threw x w' \<Rightarrow> Threw x (fst s @ [(h, arg)], w'))"

definition invoked :: "('x, ('h \<times> 'a) list \<times> 'w) outcome \<Rightarrow> ('h \<times> 'a) list" where
  "invoked out = fst (world out)"

text \<open>The invariant of section 3 of the specification on a result.\<close>

definition resultInvariant :: "('a, 'e) Result \<Rightarrow> bool" where
  "resultInvariant r \<longleftrightarrow>
     (ok r \<longleftrightarrow> value' r \<noteq> None \<and> error r = None) \<and>
     (\<not> ok r \<longleftrightarrow> error r \<noteq> None \<and> value' r = None)"

text \<open>The error list a validation result carries: empty when the field is absent.\<close>

definition errorList :: "ValidationResult \<Rightarrow> ValidationError list" where
  "errorList r = (case errors r of None \<Rightarrow> [] | Some errs \<Rightarrow> errs)"

definition failing :: "ValidationResult list \<Rightarrow> ValidationResult list" where
  "failing rs = filter (\<lambda>r. \<not> ValidationResult.ok r) rs"

text \<open>Every key of the store maps to an entity that carries that key as its id.\<close>

definition keyConsistent :: "'z SharedEntity_scheme InMemoryRepository \<Rightarrow> bool" where
  "keyConsistent repo \<longleftrightarrow> (\<forall>(k, entity) \<in> set (store repo). id' entity = k)"

section \<open>Properties of pagination\<close>

lemma ceilDiv_code:
  "ceilDiv n d = (if d = 0 then (if n = 0 then NaN else Infinity) else Num (- (- int n div d)))"
proof -
  have "\<lceil>real n / real_of_int d\<rceil> = - (- int n div d)"
    using ceiling_divide_eq_div [of "int n" d, where ?'a = real] by simp
  then show ?thesis by (simp add: ceilDiv_def)
qed

lemma slice_nonneg:
  assumes "0 \<le> start" and "0 \<le> w"
  shows "slice xs start (start + w) = take (nat w) (drop (nat start) xs)"
proof (cases "start \<le> int (length xs)")
  case True
  show ?thesis
  proof (cases "start + w \<le> int (length xs)")
    case True
    with assms \<open>start \<le> int (length xs)\<close> show ?thesis
      by (simp add: slice_def Let_def min_def)
  next
    case False
    with assms \<open>start \<le> int (length xs)\<close>
    have "nat w \<ge> length xs - nat start" by linarith
    with assms False \<open>start \<le> int (length xs)\<close> show ?thesis
      by (simp add: slice_def Let_def min_def nat_diff_distrib)
  qed
next
  case False
  with assms show ?thesis
    by (simp add: slice_def Let_def min_def)
qed

lemma items_paginate:
  assumes "1 \<le> page ps" and "1 \<le> pageSize ps"
  shows "items (paginate xs ps) =
         take (nat (pageSize ps)) (drop (nat ((page ps - 1) * pageSize ps)) xs)"
proof -
  have "0 \<le> (page ps - 1) * pageSize ps" using assms by simp
  moreover have "0 \<le> pageSize ps" using assms by simp
  ultimately show ?thesis
    by (simp add: paginate_def Let_def slice_nonneg)
qed

lemma totalPages_paginate:
  assumes "1 \<le> pageSize ps"
  shows "totalPages (paginate xs ps) = Num \<lceil>real (length xs) / real_of_int (pageSize ps)\<rceil>"
  using assms by (simp add: paginate_def Let_def ceilDiv_def)

lemma chunks_take:
  "concat (map (\<lambda>k. take s (drop (k * s) xs)) [0..<n]) = take (n * s) xs"
proof (induction n)
  case 0
  show ?case by simp
next
  case (Suc n)
  have "take (n * s + s) xs = take (n * s) xs @ take s (drop (n * s) xs)"
    by (rule take_add)
  with Suc show ?case by (simp add: add.commute)
qed

lemma upto_as_nat: "[1..int n] = map int [1..<Suc n]"
proof (induction n)
  case 0
  show ?case by simp
next
  case (Suc n)
  have "[1..int (Suc n)] = [1..int n] @ [int (Suc n)]"
    using upto_rec2 [of 1 "int (Suc n)"] by simp
  with Suc show ?case by simp
qed

lemma pages_reach_end:
  assumes "1 \<le> d"
  shows "int n \<le> (- (- int n div d)) * d" and "0 \<le> - (- int n div d)"
proof -
  have "- int n = (- int n div d) * d + (- int n) mod d" by simp
  moreover have "0 \<le> (- int n) mod d" using assms by simp
  ultimately have "(- int n div d) * d \<le> - int n" by linarith
  then show "int n \<le> (- (- int n div d)) * d" by simp
  have "- int n div d \<le> 0"
    using assms by (intro div_nonpos_pos_le0) simp_all
  then show "0 \<le> - (- int n div d)" by simp
qed

text \<open>
  Claim C3. For every list and parameters with \<open>page \<ge> 1\<close> and \<open>pageSize \<ge> 1\<close>,
  \<open>paginate\<close> returns \<open>total\<close> the length of the list, \<open>totalPages\<close> the ceiling of
  \<open>total / pageSize\<close> (0 for the empty list), and as items the slice that starts at
  \<open>(page - 1) * pageSize\<close> and has \<open>pageSize\<close> elements at most; the slice is empty when the
  start is at or beyond the end of the list. No branch of \<open>paginate\<close> fails. On a list of
  25 elements, page 3 of size 10 holds the elements 21 to 25, with total 25 and 3 pages.
\<close>

theorem paginate_spec:
  assumes "1 \<le> page ps" and "1 \<le> pageSize ps"
  shows "total (paginate xs ps) = length xs
       \<and> totalPages (paginate xs ps) = Num \<lceil>real (length xs) / real_of_int (pageSize ps)\<rceil>
       \<and> (xs = [] \<longrightarrow> totalPages (paginate xs ps) = Num 0)
       \<and> items (paginate xs ps) =
           take (nat (pageSize ps)) (drop (nat ((page ps - 1) * pageSize ps)) xs)
       \<and> (int (length xs) \<le> (page ps - 1) * pageSize ps \<longrightarrow> items (paginate xs ps) = [])
       \<and> (length xs = 25 \<and> page ps = 3 \<and> pageSize ps = 10 \<longrightarrow>
            items (paginate xs ps) = drop 20 xs \<and> length (items (paginate xs ps)) = 5
            \<and> total (paginate xs ps) = 25 \<and> totalPages (paginate xs ps) = Num 3)"
proof -
  have t: "total (paginate xs ps) = length xs"
    by (simp add: paginate_def Let_def)
  have tp: "totalPages (paginate xs ps) = Num \<lceil>real (length xs) / real_of_int (pageSize ps)\<rceil>"
    using assms(2) by (rule totalPages_paginate)
  have it: "items (paginate xs ps) =
           take (nat (pageSize ps)) (drop (nat ((page ps - 1) * pageSize ps)) xs)"
    using assms by (rule items_paginate)
  have e: "xs = [] \<longrightarrow> totalPages (paginate xs ps) = Num 0"
    using tp by auto
  have b: "int (length xs) \<le> (page ps - 1) * pageSize ps \<longrightarrow> items (paginate xs ps) = []"
    using it by simp
  have s: "length xs = 25 \<and> page ps = 3 \<and> pageSize ps = 10 \<longrightarrow>
            items (paginate xs ps) = drop 20 xs \<and> length (items (paginate xs ps)) = 5
            \<and> total (paginate xs ps) = 25 \<and> totalPages (paginate xs ps) = Num 3"
    using it t tp by simp
  from t tp e it b s show ?thesis by blast
qed


lemma page_items:
  assumes "1 \<le> pageSize ps"
  shows "items (paginate xs (ps\<lparr>page := 1 + int k\<rparr>)) =
         take (nat (pageSize ps)) (drop (k * nat (pageSize ps)) xs)"
proof -
  have "nat (int k * pageSize ps) = k * nat (pageSize ps)"
    using assms by (simp add: nat_mult_distrib)
  then show ?thesis
    using assms items_paginate [of "ps\<lparr>page := 1 + int k\<rparr>" xs] by simp
qed

lemma pages_concat:
  assumes "1 \<le> pageSize ps"
  shows "concat (map (\<lambda>p. items (paginate xs (ps\<lparr>page := p\<rparr>))) [1..int n]) =
         take (n * nat (pageSize ps)) xs"
proof -
  have "map (\<lambda>p. items (paginate xs (ps\<lparr>page := p\<rparr>))) [1..int n] =
        map (\<lambda>k. take (nat (pageSize ps)) (drop (k * nat (pageSize ps)) xs)) [0..<n]"
    using assms by (simp add: upto_as_nat map_Suc_upt [symmetric] page_items del: upt_Suc)
  then show ?thesis by (simp add: chunks_take)
qed

text \<open>
  Claim C4. For every list and every \<open>pageSize \<ge> 1\<close>, the items of the pages
  \<open>1, \<dots>, totalPages\<close>, concatenated in page order, are the whole list, so nothing is lost
  or duplicated and the item counts sum to the total; every page beyond \<open>totalPages\<close> is
  empty, and \<open>paginate\<close> returns it as any other page.
\<close>

theorem paginate_pages_cover:
  assumes "1 \<le> pageSize ps"
  shows "let tp = \<lceil>real (length xs) / real_of_int (pageSize ps)\<rceil> in
           totalPages (paginate xs ps) = Num tp
         \<and> concat (map (\<lambda>p. items (paginate xs (ps\<lparr>page := p\<rparr>))) [1..tp]) = xs
         \<and> (\<Sum>p\<leftarrow>[1..tp]. length (items (paginate xs (ps\<lparr>page := p\<rparr>)))) = length xs
         \<and> (\<forall>p. tp < p \<longrightarrow> items (paginate xs (ps\<lparr>page := p\<rparr>)) = [])"
proof -
  define d where "d = pageSize ps"
  define tp where "tp = \<lceil>real (length xs) / real_of_int d\<rceil>"
  define n where "n = nat tp"
  have d: "1 \<le> d" using assms by (simp add: d_def)
  have tp_div: "tp = - (- int (length xs) div d)"
    using ceiling_divide_eq_div [of "int (length xs)" d, where ?'a = real]
    by (simp add: tp_def)
  have tp_nonneg: "0 \<le> tp" using pages_reach_end(2) [OF d] by (simp add: tp_div)
  then have tp_n: "tp = int n" by (simp add: n_def)
  have reach: "int (length xs) \<le> tp * d"
    using pages_reach_end(1) [OF d] by (simp add: tp_div)
  have "int (n * nat d) = tp * d" using d tp_n by simp
  with reach have len: "length xs \<le> n * nat d" by linarith
  have total: "totalPages (paginate xs ps) = Num tp"
    using assms by (simp add: totalPages_paginate tp_def d_def)
  have cover: "concat (map (\<lambda>p. items (paginate xs (ps\<lparr>page := p\<rparr>))) [1..tp]) = xs"
    using pages_concat [OF assms, of xs n] len by (simp add: tp_n d_def)
  have "(\<Sum>p\<leftarrow>[1..tp]. length (items (paginate xs (ps\<lparr>page := p\<rparr>)))) =
        length (concat (map (\<lambda>p. items (paginate xs (ps\<lparr>page := p\<rparr>))) [1..tp]))"
    by (simp add: length_concat comp_def)
  with cover have count:
    "(\<Sum>p\<leftarrow>[1..tp]. length (items (paginate xs (ps\<lparr>page := p\<rparr>)))) = length xs"
    by simp
  have beyond: "items (paginate xs (ps\<lparr>page := p\<rparr>)) = []" if "tp < p" for p
  proof -
    have p1: "1 \<le> p" using that tp_nonneg by simp
    have "tp * d \<le> (p - 1) * d" using that d by (intro mult_right_mono) simp_all
    with reach have "int (length xs) \<le> (p - 1) * d" by simp
    then show ?thesis
      using items_paginate [of "ps\<lparr>page := p\<rparr>" xs] p1 assms by (simp add: d_def)
  qed
  from total cover count beyond show ?thesis
    unfolding Let_def tp_def d_def by blast
qed

theorem paginate_spec_witness:
  "1 \<le> page \<lparr>page = 3, pageSize = 10, sortBy = None, sortOrder = None\<rparr>
   \<and> 1 \<le> pageSize \<lparr>page = 3, pageSize = 10, sortBy = None, sortOrder = None\<rparr>
   \<and> paginate ''abcdefghijklmnopqrstuvwxy''
        \<lparr>page = 3, pageSize = 10, sortBy = None, sortOrder = None\<rparr>
       = \<lparr>items = ''uvwxy'', total = 25, PaginatedResponse.page = 3,
          PaginatedResponse.pageSize = 10, totalPages = Num 3\<rparr>"
  using paginate_spec [of "\<lparr>page = 3, pageSize = 10, sortBy = None, sortOrder = None\<rparr>"
      "''abcdefghijklmnopqrstuvwxy''"]
  by (simp add: paginate_def Let_def)

theorem paginate_pages_cover_witness:
  "1 \<le> pageSize \<lparr>page = 1, pageSize = 2, sortBy = None, sortOrder = None\<rparr>
   \<and> totalPages (paginate ''abcde'' \<lparr>page = 1, pageSize = 2, sortBy = None, sortOrder = None\<rparr>)
       = Num 3
   \<and> concat (map (\<lambda>p. items (paginate ''abcde''
          \<lparr>page = p, pageSize = 2, sortBy = None, sortOrder = None\<rparr>)) [1, 2, 3]) = ''abcde''
   \<and> items (paginate ''abcde'' \<lparr>page = 4, pageSize = 2, sortBy = None, sortOrder = None\<rparr>) = []"
  using paginate_pages_cover [of "\<lparr>page = 1, pageSize = 2, sortBy = None, sortOrder = None\<rparr>"
      "''abcde''"]
  by (simp add: Let_def upto.simps)

section \<open>Properties of the repository\<close>

lemma map_of_keys: "map_of al k = None \<longleftrightarrow> k \<notin> set (map fst al)"
  by (simp add: map_of_eq_None_iff)

lemma findById_after_save:
  "findById (id' e) (snd (save now e repo)) =
     (createSuccess (Some (touchEntity now e)), snd (save now e repo))"
  by (simp add: findById_def save_def Let_def touchEntity_def update_conv')

text \<open>
  Claim C5. For every entity and repository state, \<open>save\<close> succeeds, and the entity it
  stores under the entity's id and the one it returns are both the touched entity: the same
  entity with \<open>updatedAt\<close> set to the current time and with \<open>id\<close>, \<open>createdAt\<close> and every
  other field unchanged. So an entity saved and then fetched by its id has the id and
  \<open>createdAt\<close> it was saved with, and, when the clock has not gone back behind the entity's
  \<open>updatedAt\<close>, an \<open>updatedAt\<close> that is not earlier than before the save.
\<close>

theorem save_touches:
  "save now e repo =
     (createSuccess (Some (touchEntity now e)),
      repo\<lparr>store := AList.update (id' e) (touchEntity now e) (store repo)\<rparr>)
   \<and> ok (fst (save now e repo))
   \<and> value' (fst (save now e repo)) = Some (touchEntity now e)
   \<and> map_of (store (snd (save now e repo))) (id' e) = Some (touchEntity now e)
   \<and> touchEntity now e = e\<lparr>updatedAt := now\<rparr>
   \<and> id' (touchEntity now e) = id' e
   \<and> createdAt (touchEntity now e) = createdAt e
   \<and> updatedAt (touchEntity now e) = now
   \<and> SharedEntity.more (touchEntity now e) = SharedEntity.more e
   \<and> fst (findById (id' e) (snd (save now e repo))) = createSuccess (Some (touchEntity now e))
   \<and> (updatedAt e \<le> now \<longrightarrow>
        (\<exists>f. value' (fst (findById (id' e) (snd (save now e repo)))) = Some f
           \<and> id' f = id' e \<and> createdAt f = createdAt e \<and> updatedAt e \<le> updatedAt f))"
proof -
  have s: "save now e repo =
     (createSuccess (Some (touchEntity now e)),
      repo\<lparr>store := AList.update (id' e) (touchEntity now e) (store repo)\<rparr>)"
    by (simp add: save_def Let_def touchEntity_def)
  have f: "fst (findById (id' e) (snd (save now e repo))) = createSuccess (Some (touchEntity now e))"
    by (simp add: findById_after_save)
  have t: "touchEntity now e = e\<lparr>updatedAt := now\<rparr>"
    by (simp add: touchEntity_def)
  have m: "map_of (store (snd (save now e repo))) (id' e) = Some (touchEntity now e)"
    by (simp add: s update_conv')
  have v: "value' (createSuccess (Some (touchEntity now e)) :: ('a SharedEntity_scheme, string) Result)
           = Some (touchEntity now e)"
    by (simp add: createSuccess_def)
  have o: "ok (createSuccess (Some (touchEntity now e)) :: ('a SharedEntity_scheme, string) Result)"
    by (simp add: createSuccess_def)
  show ?thesis
    unfolding f unfolding s fst_conv snd_conv v
    using o m [unfolded s snd_conv] by (simp add: t)
qed

theorem save_touches_witness:
  "updatedAt \<lparr>id' = ''u1'', createdAt = 5, updatedAt = 7\<rparr> \<le> (9::int)
   \<and> save 9 \<lparr>id' = ''u1'', createdAt = 5, updatedAt = 7\<rparr>
        \<lparr>store = [(''u1'', \<lparr>id' = ''u1'', createdAt = 5, updatedAt = 6\<rparr>)]\<rparr>
      = (\<lparr>ok = True, value' = Some \<lparr>id' = ''u1'', createdAt = 5, updatedAt = 9\<rparr>, error = None\<rparr>,
         \<lparr>store = [(''u1'', \<lparr>id' = ''u1'', createdAt = 5, updatedAt = 9\<rparr>)]\<rparr>)
   \<and> fst (findById ''u1'' (snd (save 9 \<lparr>id' = ''u1'', createdAt = 5, updatedAt = 7\<rparr>
        \<lparr>store = [(''u1'', \<lparr>id' = ''u1'', createdAt = 5, updatedAt = 6\<rparr>)]\<rparr>)))
      = \<lparr>ok = True, value' = Some \<lparr>id' = ''u1'', createdAt = 5, updatedAt = 9\<rparr>, error = None\<rparr>"
  using save_touches [of 9 "\<lparr>id' = ''u1'', createdAt = 5, updatedAt = 7\<rparr>"
      "\<lparr>store = [(''u1'', \<lparr>id' = ''u1'', createdAt = 5, updatedAt = 6\<rparr>)]\<rparr>"]
  by (simp add: createSuccess_def touchEntity_def findById_def)

lemma delete_absent:
  assumes "map_of (store repo) i = None"
  shows "delete i repo = (createError (notFound i), repo)"
  using assms by (simp add: delete_def map_of_keys)

lemma delete_present:
  assumes "map_of (store repo) i = Some e"
  shows "delete i repo = (createSuccess None, repo\<lparr>store := AList.delete i (store repo)\<rparr>)"
proof -
  have "i \<in> set (map fst (store repo))"
    using assms map_of_keys [of "store repo" i] by simp
  then show ?thesis by (simp add: delete_def)
qed

lemma findById_absent:
  assumes "map_of (store repo) i = None"
  shows "findById i repo = (createError (notFound i), repo)"
  using assms by (simp add: findById_def)

lemma findById_present:
  assumes "map_of (store repo) i = Some e"
  shows "findById i repo = (createSuccess (Some e), repo)"
  using assms by (simp add: findById_def)

text \<open>
  Claim C6. For every id: \<open>delete\<close> on a store without the id returns the not-found
  failure and leaves the store as it is; \<open>delete\<close> on a store with the id succeeds and
  removes that entry and no other, so that \<open>findById\<close> for the id then returns the not-found
  failure; \<open>findById\<close> on a store with the id succeeds with the stored entity.
\<close>

theorem delete_findById:
  "(map_of (store repo) i = None \<longrightarrow>
      fst (delete i repo) = (createError (notFound i) :: (unit, string) Result)
    \<and> \<not> ok (fst (delete i repo) :: (unit, string) Result)
    \<and> snd (delete i repo :: (unit, string) Result \<times> _) = repo)
 \<and> (map_of (store repo) i = Some e \<longrightarrow>
      ok (fst (delete i repo) :: (unit, string) Result)
    \<and> store (snd (delete i repo :: (unit, string) Result \<times> _))
        = filter (\<lambda>(k, _). k \<noteq> i) (store repo)
    \<and> map_of (store (snd (delete i repo :: (unit, string) Result \<times> _)))
        = (map_of (store repo))(i := None)
    \<and> fst (findById i (snd (delete i repo :: (unit, string) Result \<times> _)))
        = createError (notFound i)
    \<and> \<not> ok (fst (findById i (snd (delete i repo :: (unit, string) Result \<times> _)))))
 \<and> (map_of (store repo) i = Some e \<longrightarrow>
      findById i repo = (createSuccess (Some e), repo) \<and> ok (fst (findById i repo))
    \<and> value' (fst (findById i repo)) = Some e)"
proof (intro conjI impI)
  assume a: "map_of (store repo) i = None"
  show "fst (delete i repo) = (createError (notFound i) :: (unit, string) Result)"
    by (simp add: delete_absent [OF a])
  show "\<not> ok (fst (delete i repo) :: (unit, string) Result)"
    by (simp add: delete_absent [OF a] createError_def)
  show "snd (delete i repo :: (unit, string) Result \<times> _) = repo"
    by (simp add: delete_absent [OF a])
next
  assume p: "map_of (store repo) i = Some e"
  let ?repo' = "snd (delete i repo :: (unit, string) Result \<times> _)"
  have d: "?repo' = repo\<lparr>store := AList.delete i (store repo)\<rparr>"
    by (simp add: delete_present [OF p])
  show "ok (fst (delete i repo) :: (unit, string) Result)"
    by (simp add: delete_present [OF p] createSuccess_def)
  show "store ?repo' = filter (\<lambda>(k, _). k \<noteq> i) (store repo)"
    by (simp add: d AList.delete_eq neq_commute)
  show m: "map_of (store ?repo') = (map_of (store repo))(i := None)"
    by (simp add: d delete_conv')
  have gone: "map_of (store ?repo') i = None" by (simp add: m)
  show "fst (findById i ?repo') = createError (notFound i)"
    by (simp add: findById_absent [OF gone])
  show "\<not> ok (fst (findById i ?repo'))"
    by (simp add: findById_absent [OF gone] createError_def)
  show "findById i repo = (createSuccess (Some e), repo)"
    by (rule findById_present [OF p])
  show "ok (fst (findById i repo))"
    by (simp add: findById_present [OF p] createSuccess_def)
  show "value' (fst (findById i repo)) = Some e"
    by (simp add: findById_present [OF p] createSuccess_def)
qed

theorem delete_findById_witness:
  "map_of (store \<lparr>store = [(''a'', \<lparr>id' = ''a'', createdAt = 1, updatedAt = 2\<rparr>)]\<rparr>) ''b'' = None
   \<and> map_of (store \<lparr>store = [(''a'', \<lparr>id' = ''a'', createdAt = 1, updatedAt = 2\<rparr>)]\<rparr>) ''a''
       = Some \<lparr>id' = ''a'', createdAt = 1, updatedAt = 2\<rparr>
   \<and> (delete ''b'' \<lparr>store = [(''a'', \<lparr>id' = ''a'', createdAt = 1, updatedAt = 2\<rparr>)]\<rparr>
        :: (unit, string) Result \<times> _)
       = (\<lparr>ok = False, value' = None, error = Some ''Entity with id b not found''\<rparr>,
          \<lparr>store = [(''a'', \<lparr>id' = ''a'', createdAt = 1, updatedAt = 2\<rparr>)]\<rparr>)
   \<and> (delete ''a'' \<lparr>store = [(''a'', \<lparr>id' = ''a'', createdAt = 1, updatedAt = 2\<rparr>)]\<rparr>
        :: (unit, string) Result \<times> _)
       = (\<lparr>ok = True, value' = None, error = None\<rparr>, \<lparr>store = []\<rparr>)
   \<and> fst (findById ''a'' (snd (delete ''a''
          \<lparr>store = [(''a'', \<lparr>id' = ''a'', createdAt = 1, updatedAt = 2\<rparr>)]\<rparr>
          :: (unit, string) Result \<times> _)))
       = \<lparr>ok = False, value' = None, error = Some ''Entity with id a not found''\<rparr>
   \<and> fst (findById ''a'' \<lparr>store = [(''a'', \<lparr>id' = ''a'', createdAt = 1, updatedAt = 2\<rparr>)]\<rparr>)
       = \<lparr>ok = True, value' = Some \<lparr>id' = ''a'', createdAt = 1, updatedAt = 2\<rparr>, error = None\<rparr>"
  using delete_findById [of "\<lparr>store = [(''a'', \<lparr>id' = ''a'', createdAt = 1, updatedAt = 2\<rparr>)]\<rparr>"
      "''b''" "\<lparr>id' = ''a'', createdAt = 1, updatedAt = 2\<rparr>"]
    delete_findById [of "\<lparr>store = [(''a'', \<lparr>id' = ''a'', createdAt = 1, updatedAt = 2\<rparr>)]\<rparr>"
      "''a''" "\<lparr>id' = ''a'', createdAt = 1, updatedAt = 2\<rparr>"]
  by (simp add: delete_def findById_def createSuccess_def createError_def notFound_def AList.delete_eq)

text \<open>
  The keys of the list stay distinct, so the list represents a \<^verbatim>\<open>Map\<close> in every
  reachable state of the repository.
\<close>

lemma distinct_keys_save:
  assumes "distinct (map fst (store repo))"
  shows "distinct (map fst (store (snd (save now e repo))))"
  using assms by (simp add: save_def Let_def distinct_update)

lemma distinct_keys_delete:
  assumes "distinct (map fst (store repo))"
  shows "distinct (map fst (store (snd (delete i repo :: (unit, string) Result \<times> _))))"
  using assms by (simp add: delete_def distinct_delete)

lemma set_update_subset: "set (AList.update k v al) \<subseteq> insert (k, v) (set al)"
  by (induction al) auto

lemma set_delete_subset: "set (AList.delete k al) \<subseteq> set al"
  by (auto simp: AList.delete_eq)

text \<open>
  Claim C9. The store of the in-memory repository maps every key to an entity whose id is
  that key: this holds of the new, empty store, \<open>save\<close> and \<open>delete\<close> preserve it, and the
  three read operations return the repository as they found it.
\<close>

theorem keyConsistent_preserved:
  "keyConsistent newRepository
 \<and> (keyConsistent repo \<longrightarrow> keyConsistent (snd (save now e repo)))
 \<and> (keyConsistent repo \<longrightarrow> keyConsistent (snd (delete i repo :: (unit, string) Result \<times> _)))
 \<and> snd (findById i repo) = repo
 \<and> snd (findAll repo) = repo
 \<and> snd (findPaginated params repo) = repo"
proof (intro conjI impI)
  show "keyConsistent newRepository"
    by (simp add: keyConsistent_def newRepository_def)
next
  assume inv: "keyConsistent repo"
  have "id' entity = k" if "(k, entity) \<in> set (AList.update (id' e) (touchEntity now e) (store repo))"
    for k entity
  proof -
    from that set_update_subset
    have "(k, entity) = (id' e, touchEntity now e) \<or> (k, entity) \<in> set (store repo)"
      by fastforce
    then show ?thesis
    proof
      assume "(k, entity) = (id' e, touchEntity now e)"
      then show ?thesis by (simp add: touchEntity_def)
    next
      assume "(k, entity) \<in> set (store repo)"
      with inv show ?thesis by (auto simp: keyConsistent_def)
    qed
  qed
  then show "keyConsistent (snd (save now e repo))"
    by (auto simp: keyConsistent_def save_def Let_def touchEntity_def)
next
  assume inv: "keyConsistent repo"
  then show "keyConsistent (snd (delete i repo :: (unit, string) Result \<times> _))"
    using set_delete_subset [of i "store repo"]
    by (auto simp: keyConsistent_def delete_def)
next
  show "snd (findById i repo) = repo"
    by (simp add: findById_def split: option.split)
  show "snd (findAll repo) = repo"
    by (simp add: findAll_def)
  show "snd (findPaginated params repo) = repo"
    by (simp add: findPaginated_def Let_def)
qed

theorem keyConsistent_preserved_witness:
  "keyConsistent \<lparr>store = [(''a'', \<lparr>id' = ''a'', createdAt = 1, updatedAt = 2\<rparr>)]\<rparr>
   \<and> keyConsistent (snd (save 9 \<lparr>id' = ''b'', createdAt = 3, updatedAt = 3\<rparr>
        \<lparr>store = [(''a'', \<lparr>id' = ''a'', createdAt = 1, updatedAt = 2\<rparr>)]\<rparr>))
   \<and> snd (save 9 \<lparr>id' = ''b'', createdAt = 3, updatedAt = 3\<rparr>
        \<lparr>store = [(''a'', \<lparr>id' = ''a'', createdAt = 1, updatedAt = 2\<rparr>)]\<rparr>)
      = \<lparr>store = [(''a'', \<lparr>id' = ''a'', createdAt = 1, updatedAt = 2\<rparr>),
                  (''b'', \<lparr>id' = ''b'', createdAt = 3, updatedAt = 9\<rparr>)]\<rparr>
   \<and> keyConsistent (snd (delete ''a''
        \<lparr>store = [(''a'', \<lparr>id' = ''a'', createdAt = 1, updatedAt = 2\<rparr>)]\<rparr>
        :: (unit, string) Result \<times> _))"
proof -
  have inv: "keyConsistent \<lparr>store = [(''a'', \<lparr>id' = ''a'', createdAt = 1, updatedAt = 2\<rparr>)]\<rparr>"
    by (simp add: keyConsistent_def)
  show ?thesis
    using inv keyConsistent_preserved [of "\<lparr>store = [(''a'', \<lparr>id' = ''a'', createdAt = 1, updatedAt = 2\<rparr>)]\<rparr>"
      9 "\<lparr>id' = ''b'', createdAt = 3, updatedAt = 3\<rparr>" "''a''"]
    by (simp add: save_def Let_def touchEntity_def keyConsistent_def delete_def AList.delete_eq)
qed

section \<open>Properties of results\<close>

lemma resultInvariant_createSuccess: "resultInvariant (createSuccess (Some v))"
  by (simp add: resultInvariant_def createSuccess_def)

lemma resultInvariant_createError: "resultInvariant (createError e)"
  by (simp add: resultInvariant_def createError_def)

text \<open>
  Claim C2, as the code has it. The results of \<open>findById\<close>, \<open>findAll\<close>, \<open>findPaginated\<close>
  and \<open>save\<close>, and the failure of \<open>delete\<close>, satisfy the invariant: \<open>ok\<close> holds exactly when
  the value is present and the error absent, and \<open>ok\<close> fails exactly when the error is
  present and the value absent. The success of \<open>delete\<close> (a \<^verbatim>\<open>Result<void>\<close>) has \<open>ok\<close>
  true with neither a value nor an error. For all five operations \<open>ok\<close> holds exactly when
  the error is absent, and a result with a value is \<open>ok\<close>.
\<close>

theorem repository_results:
  "resultInvariant (fst (findById i repo))
 \<and> resultInvariant (fst (findAll repo))
 \<and> resultInvariant (fst (findPaginated params repo))
 \<and> resultInvariant (fst (save now e repo))
 \<and> (i \<notin> set (map fst (store repo)) \<longrightarrow>
      resultInvariant (fst (delete i repo) :: (unit, string) Result))
 \<and> (i \<in> set (map fst (store repo)) \<longrightarrow>
      (fst (delete i repo) :: (unit, string) Result) = \<lparr>ok = True, value' = None, error = None\<rparr>)
 \<and> (ok (fst (delete i repo) :: (unit, string) Result)
       \<longleftrightarrow> error (fst (delete i repo) :: (unit, string) Result) = None)
 \<and> value' (fst (delete i repo) :: (unit, string) Result) = None"
proof (intro conjI impI)
  show "resultInvariant (fst (findById i repo))"
    by (simp add: findById_def resultInvariant_createSuccess resultInvariant_createError
        split: option.split)
  show "resultInvariant (fst (findAll repo))"
    by (simp add: findAll_def resultInvariant_createSuccess)
  show "resultInvariant (fst (findPaginated params repo))"
    by (simp add: findPaginated_def Let_def resultInvariant_createSuccess)
  show "resultInvariant (fst (save now e repo))"
    by (simp add: save_def Let_def resultInvariant_createSuccess)
  show "ok (fst (delete i repo) :: (unit, string) Result)
       \<longleftrightarrow> error (fst (delete i repo) :: (unit, string) Result) = None"
    by (simp add: delete_def createSuccess_def createError_def)
  show "value' (fst (delete i repo) :: (unit, string) Result) = None"
    by (simp add: delete_def createSuccess_def createError_def)
next
  assume "i \<notin> set (map fst (store repo))"
  then show "resultInvariant (fst (delete i repo) :: (unit, string) Result)"
    by (simp add: delete_def resultInvariant_createError)
next
  assume "i \<in> set (map fst (store repo))"
  then show "(fst (delete i repo) :: (unit, string) Result)
             = \<lparr>ok = True, value' = None, error = None\<rparr>"
    by (simp add: delete_def createSuccess_def)
qed

theorem repository_results_witness:
  "''a'' \<in> set (map fst (store \<lparr>store = [(''a'', \<lparr>id' = ''a'', createdAt = 1, updatedAt = 2\<rparr>)]\<rparr>))
   \<and> ''b'' \<notin> set (map fst (store \<lparr>store = [(''a'', \<lparr>id' = ''a'', createdAt = 1, updatedAt = 2\<rparr>)]\<rparr>))
   \<and> resultInvariant (fst (delete ''b''
        \<lparr>store = [(''a'', \<lparr>id' = ''a'', createdAt = 1, updatedAt = 2\<rparr>)]\<rparr>) :: (unit, string) Result)
   \<and> (fst (delete ''a'' \<lparr>store = [(''a'', \<lparr>id' = ''a'', createdAt = 1, updatedAt = 2\<rparr>)]\<rparr>)
        :: (unit, string) Result) = \<lparr>ok = True, value' = None, error = None\<rparr>
   \<and> resultInvariant (fst (findById ''a''
        \<lparr>store = [(''a'', \<lparr>id' = ''a'', createdAt = 1, updatedAt = 2\<rparr>)]\<rparr>))"
  using repository_results [of "''a''" "\<lparr>store = [(''a'', \<lparr>id' = ''a'', createdAt = 1, updatedAt = 2\<rparr>)]\<rparr>"]
    repository_results [of "''b''" "\<lparr>store = [(''a'', \<lparr>id' = ''a'', createdAt = 1, updatedAt = 2\<rparr>)]\<rparr>"]
  by simp

text \<open>
  The claim as stated fails on the success of \<open>delete\<close>: the result is \<open>ok\<close> and reading its
  value yields \<^verbatim>\<open>undefined\<close>, which is what \<open>unwrapResult\<close> reports.
\<close>

theorem repository_results_counterexample:
  "\<not> resultInvariant (fst (delete ''a''
        \<lparr>store = [(''a'', \<lparr>id' = ''a'', createdAt = 1, updatedAt = 2\<rparr>)]\<rparr>) :: (unit, string) Result)
   \<and> unwrapResult (fst (delete ''a''
        \<lparr>store = [(''a'', \<lparr>id' = ''a'', createdAt = 1, updatedAt = 2\<rparr>)]\<rparr>) :: (unit, string) Result)
       = Inl (Error ''Result value is undefined'')"
  by (simp add: delete_def createSuccess_def resultInvariant_def unwrapResult_def)

section \<open>Properties of validation\<close>

lemma combineLoop_eq: "combineLoop acc rs = acc @ concat (map errorList (failing rs))"
  by (induction rs arbitrary: acc) (auto simp: errorList_def failing_def split: option.split)

lemma concat_failing_empty:
  assumes "\<forall>r \<in> set rs. \<not> ValidationResult.ok r \<longrightarrow> errorList r \<noteq> []"
  shows "concat (map errorList (failing rs)) = [] \<longleftrightarrow> (\<forall>r \<in> set rs. ValidationResult.ok r)"
  using assms by (auto simp: failing_def)

lemma concat_failing_all:
  assumes "\<forall>r \<in> set rs. ValidationResult.ok r \<longrightarrow> errorList r = []"
  shows "concat (map errorList (failing rs)) = concat (map errorList rs)"
  using assms by (induction rs) (auto simp: failing_def)

text \<open>
  Claim C7, as the code has it. \<open>combineValidations\<close> returns success exactly when the
  failing inputs carry no error at all, and otherwise a failure whose errors are the error
  lists of the failing inputs, concatenated in input order. When every failing input carries
  at least one error, it returns success if and only if every input was success; when no
  successful input carries errors, the concatenation of the failing inputs' error lists is
  the concatenation of all the inputs' error lists.
\<close>

theorem combineValidations_spec:
  "(ValidationResult.ok (combineValidations rs) \<longleftrightarrow> concat (map errorList (failing rs)) = [])
 \<and> (ValidationResult.ok (combineValidations rs) \<longrightarrow> combineValidations rs = validationSuccess)
 \<and> (\<not> ValidationResult.ok (combineValidations rs) \<longrightarrow>
      errors (combineValidations rs) = Some (concat (map errorList (failing rs))))
 \<and> ((\<forall>r \<in> set rs. \<not> ValidationResult.ok r \<longrightarrow> errorList r \<noteq> []) \<longrightarrow>
      (ValidationResult.ok (combineValidations rs) \<longleftrightarrow> (\<forall>r \<in> set rs. ValidationResult.ok r)))
 \<and> ((\<forall>r \<in> set rs. ValidationResult.ok r \<longrightarrow> errorList r = []) \<longrightarrow>
      concat (map errorList (failing rs)) = concat (map errorList rs))"
proof -
  have c: "combineValidations rs =
      (if concat (map errorList (failing rs)) = [] then validationSuccess
       else validationError (concat (map errorList (failing rs))))"
    by (simp add: combineValidations_def Let_def combineLoop_eq)
  have 1: "ValidationResult.ok (combineValidations rs) \<longleftrightarrow> concat (map errorList (failing rs)) = []"
    unfolding c by (simp add: validationSuccess_def validationError_def)
  have 2: "ValidationResult.ok (combineValidations rs) \<longrightarrow> combineValidations rs = validationSuccess"
    unfolding c by (simp add: validationSuccess_def validationError_def)
  have 3: "\<not> ValidationResult.ok (combineValidations rs) \<longrightarrow>
      errors (combineValidations rs) = Some (concat (map errorList (failing rs)))"
    unfolding c by (simp add: validationSuccess_def validationError_def)
  have 4: "(\<forall>r \<in> set rs. \<not> ValidationResult.ok r \<longrightarrow> errorList r \<noteq> []) \<longrightarrow>
      (ValidationResult.ok (combineValidations rs) \<longleftrightarrow> (\<forall>r \<in> set rs. ValidationResult.ok r))"
    using 1 concat_failing_empty [of rs] by blast
  have 5: "(\<forall>r \<in> set rs. ValidationResult.ok r \<longrightarrow> errorList r = []) \<longrightarrow>
      concat (map errorList (failing rs)) = concat (map errorList rs)"
    using concat_failing_all [of rs] by blast
  from 1 2 3 4 5 show ?thesis by blast
qed

theorem combineValidations_spec_witness:
  "list_all (\<lambda>r. \<not> ValidationResult.ok r \<longrightarrow> errorList r \<noteq> [])
     [\<lparr>ValidationResult.ok = True, errors = None\<rparr>,
      \<lparr>ValidationResult.ok = False,
        errors = Some [\<lparr>field = ''email'', message = ''Email is required'', code = ''REQUIRED''\<rparr>]\<rparr>,
      \<lparr>ValidationResult.ok = False,
        errors = Some [\<lparr>field = ''name'', message = ''name is required'', code = ''REQUIRED''\<rparr>]\<rparr>]
   \<and> list_all (\<lambda>r. ValidationResult.ok r \<longrightarrow> errorList r = [])
     [\<lparr>ValidationResult.ok = True, errors = None\<rparr>,
      \<lparr>ValidationResult.ok = False,
        errors = Some [\<lparr>field = ''email'', message = ''Email is required'', code = ''REQUIRED''\<rparr>]\<rparr>,
      \<lparr>ValidationResult.ok = False,
        errors = Some [\<lparr>field = ''name'', message = ''name is required'', code = ''REQUIRED''\<rparr>]\<rparr>]
   \<and> combineValidations
     [\<lparr>ValidationResult.ok = True, errors = None\<rparr>,
      \<lparr>ValidationResult.ok = False,
        errors = Some [\<lparr>field = ''email'', message = ''Email is required'', code = ''REQUIRED''\<rparr>]\<rparr>,
      \<lparr>ValidationResult.ok = False,
        errors = Some [\<lparr>field = ''name'', message = ''name is required'', code = ''REQUIRED''\<rparr>]\<rparr>]
   = \<lparr>ValidationResult.ok = False,
      errors = Some [\<lparr>field = ''email'', message = ''Email is required'', code = ''REQUIRED''\<rparr>,
                     \<lparr>field = ''name'', message = ''name is required'', code = ''REQUIRED''\<rparr>]\<rparr>
   \<and> combineValidations
     [\<lparr>ValidationResult.ok = True, errors = None\<rparr>, \<lparr>ValidationResult.ok = True, errors = None\<rparr>]
   = \<lparr>ValidationResult.ok = True, errors = None\<rparr>"
  using combineValidations_spec [of
     "[\<lparr>ValidationResult.ok = True, errors = None\<rparr>,
      \<lparr>ValidationResult.ok = False,
        errors = Some [\<lparr>field = ''email'', message = ''Email is required'', code = ''REQUIRED''\<rparr>]\<rparr>,
      \<lparr>ValidationResult.ok = False,
        errors = Some [\<lparr>field = ''name'', message = ''name is required'', code = ''REQUIRED''\<rparr>]\<rparr>]"]
    combineValidations_spec [of
     "[\<lparr>ValidationResult.ok = True, errors = None\<rparr>, \<lparr>ValidationResult.ok = True, errors = None\<rparr>]"]
  by (simp add: errorList_def failing_def validationSuccess_def
      ValidationResult.equality)

text \<open>
  The claim as stated fails on a failing input that carries no error: the combination is
  a success although an input was not.
\<close>

theorem combineValidations_counterexample:
  "\<not> (ValidationResult.ok (combineValidations [\<lparr>ValidationResult.ok = False, errors = Some []\<rparr>])
       \<longleftrightarrow> (\<forall>r \<in> set [\<lparr>ValidationResult.ok = False, errors = Some []\<rparr>]. ValidationResult.ok r))
   \<and> combineValidations [\<lparr>ValidationResult.ok = False, errors = Some []\<rparr>]
       = \<lparr>ValidationResult.ok = True, errors = None\<rparr>"
  by (simp add: combineValidations_def validationSuccess_def)

section \<open>Properties of the DTO conversion\<close>

text \<open>
  Claim C10. \<open>toUserDto\<close> projects a backend user onto the fields \<open>id\<close>, \<open>createdAt\<close>,
  \<open>updatedAt\<close>, \<open>email\<close>, \<open>name\<close> and \<open>role\<close>: the result is a plain \<open>UserDto\<close> with
  nothing beyond these six fields, it does not change when \<open>passwordHash\<close>, \<open>lastLoginAt\<close>,
  \<open>loginCount\<close> or \<open>isVerified\<close> change, and two backend users that agree on the six
  fields, whatever their password hashes, have equal DTOs.
\<close>

theorem toUserDto_projection:
  "id' (toUserDto u) = id' u
 \<and> createdAt (toUserDto u) = createdAt u
 \<and> updatedAt (toUserDto u) = updatedAt u
 \<and> email (toUserDto u) = email u
 \<and> name (toUserDto u) = name u
 \<and> role (toUserDto u) = role u
 \<and> UserDto.more (toUserDto u) = ()
 \<and> toUserDto (u\<lparr>passwordHash := h\<rparr>) = toUserDto u
 \<and> toUserDto (u\<lparr>lastLoginAt := l, loginCount := c, isVerified := b\<rparr>) = toUserDto u
 \<and> (id' u = id' v \<and> createdAt u = createdAt v \<and> updatedAt u = updatedAt v
      \<and> email u = email v \<and> name u = name v \<and> role u = role v
      \<longrightarrow> toUserDto u = toUserDto v)"
  by (simp add: toUserDto_def)

theorem toUserDto_projection_witness:
  "toUserDto \<lparr>id' = ''u1'', createdAt = 1, updatedAt = 2, email = ''a@b.com'', name = ''Ann'',
      role = User, passwordHash = ''hashed_secret'', lastLoginAt = None, loginCount = 0,
      isVerified = False\<rparr>
   = toUserDto \<lparr>id' = ''u1'', createdAt = 1, updatedAt = 2, email = ''a@b.com'', name = ''Ann'',
      role = User, passwordHash = ''hashed_other'', lastLoginAt = Some 5, loginCount = 3,
      isVerified = True\<rparr>
   \<and> toUserDto \<lparr>id' = ''u1'', createdAt = 1, updatedAt = 2, email = ''a@b.com'', name = ''Ann'',
      role = User, passwordHash = ''hashed_secret'', lastLoginAt = None, loginCount = 0,
      isVerified = False\<rparr>
   = \<lparr>id' = ''u1'', createdAt = 1, updatedAt = 2, email = ''a@b.com'', name = ''Ann'', role = User\<rparr>"
  using toUserDto_projection [of
     "\<lparr>id' = ''u1'', createdAt = 1, updatedAt = 2, email = ''a@b.com'', name = ''Ann'',
      role = User, passwordHash = ''hashed_secret'', lastLoginAt = None, loginCount = 0,
      isVerified = False\<rparr>" _ _ _ _
     "\<lparr>id' = ''u1'', createdAt = 1, updatedAt = 2, email = ''a@b.com'', name = ''Ann'',
      role = User, passwordHash = ''hashed_other'', lastLoginAt = Some 5, loginCount = 3,
      isVerified = True\<rparr>"]
  by (simp add: toUserDto_def)

section \<open>Properties of event delivery\<close>

lemma traced_Returned:
  "call h a w = Returned w' \<Longrightarrow> traced call h a (tr, w) = Returned (tr @ [(h, a)], w')"
  by (simp add: traced_def)

lemma traced_Threw:
  "call h a w = Threw x w' \<Longrightarrow> traced call h a (tr, w) = Threw x (tr @ [(h, a)], w')"
  by (simp add: traced_def)

lemma forEach_traced_prefix:
  "\<exists>k \<le> length hs. invoked (forEach (traced call) hs a (tr, w)) = tr @ map (\<lambda>h. (h, a)) (take k hs)"
proof (induction hs arbitrary: tr w)
  case Nil
  show ?case by (simp add: invoked_def)
next
  case (Cons h hs)
  show ?case
  proof (cases "call h a w")
    case (Returned w1)
    from Cons.IH [of "tr @ [(h, a)]" w1]
    obtain k where k: "k \<le> length hs"
      "invoked (forEach (traced call) hs a (tr @ [(h, a)], w1)) =
       (tr @ [(h, a)]) @ map (\<lambda>h. (h, a)) (take k hs)" by blast
    have "Suc k \<le> length (h # hs)" using k(1) by simp
    moreover have "invoked (forEach (traced call) (h # hs) a (tr, w)) =
        tr @ map (\<lambda>h. (h, a)) (take (Suc k) (h # hs))"
      using k(2) Returned by (simp add: traced_Returned)
    ultimately show ?thesis by blast
  next
    case (Threw x w1)
    have "Suc 0 \<le> length (h # hs)" by simp
    moreover have "invoked (forEach (traced call) (h # hs) a (tr, w)) =
        tr @ map (\<lambda>h. (h, a)) (take (Suc 0) (h # hs))"
      using Threw by (simp add: traced_Threw invoked_def)
    ultimately show ?thesis by blast
  qed
qed

text \<open>
  The traced run and the run itself agree. A traced run that returns has invoked every
  callback of the list, and the run returns the same world.
\<close>

lemma forEach_traced_Returned:
  assumes "forEach (traced call) hs a (tr, w) = Returned (tr', w')"
  shows "tr' = tr @ map (\<lambda>h. (h, a)) hs \<and> forEach call hs a w = Returned w'"
  using assms
proof (induction hs arbitrary: tr w)
  case Nil
  then show ?case by simp
next
  case (Cons h hs)
  show ?case
  proof (cases "call h a w")
    case (Returned w1)
    with Cons.prems
    have "forEach (traced call) hs a (tr @ [(h, a)], w1) = Returned (tr', w')"
      by (simp add: traced_Returned)
    from Cons.IH [OF this] Returned show ?thesis by simp
  next
    case (Threw y w1)
    with Cons.prems show ?thesis by (simp add: traced_Threw)
  qed
qed

text \<open>
  A traced run that throws has stopped at a callback \<open>h\<close> of the list: the callbacks before
  it returned, \<open>h\<close> threw the error of the run in the world they left, and the log ends
  with \<open>h\<close>.
\<close>

lemma forEach_traced_Threw:
  assumes "forEach (traced call) hs a (tr, w) = Threw x (tr', w')"
  shows "\<exists>pre h post w1. hs = pre @ h # post \<and> tr' = tr @ map (\<lambda>h. (h, a)) (pre @ [h])
           \<and> forEach call pre a w = Returned w1 \<and> call h a w1 = Threw x w'"
  using assms
proof (induction hs arbitrary: tr w)
  case Nil
  then show ?case by simp
next
  case (Cons g hs)
  show ?case
  proof (cases "call g a w")
    case (Returned w1)
    with Cons.prems
    have "forEach (traced call) hs a (tr @ [(g, a)], w1) = Threw x (tr', w')"
      by (simp add: traced_Returned)
    from Cons.IH [OF this]
    obtain pre h post w2 where IH: "hs = pre @ h # post"
      "tr' = (tr @ [(g, a)]) @ map (\<lambda>h. (h, a)) (pre @ [h])"
      "forEach call pre a w1 = Returned w2" "call h a w2 = Threw x w'"
      by blast
    have "g # hs = (g # pre) @ h # post" using IH(1) by simp
    moreover have "tr' = tr @ map (\<lambda>h. (h, a)) ((g # pre) @ [h])" using IH(2) by simp
    moreover have "forEach call (g # pre) a w = Returned w2" using IH(3) Returned by simp
    ultimately show ?thesis using IH(4) by blast
  next
    case (Threw y w1)
    with Cons.prems have eq: "y = x" "tr' = tr @ [(g, a)]" "w1 = w'"
      by (simp_all add: traced_Threw)
    have "g # hs = [] @ g # hs" by simp
    moreover have "tr' = tr @ map (\<lambda>h. (h, a)) ([] @ [g])" using eq(2) by simp
    moreover have "forEach call [] a w = Returned w" by simp
    moreover have "call g a w = Threw x w'" using Threw eq by simp
    ultimately show ?thesis by blast
  qed
qed

lemma forEach_traced_of_Returned:
  assumes "forEach call hs a w = Returned w'"
  shows "forEach (traced call) hs a (tr, w) = Returned (tr @ map (\<lambda>h. (h, a)) hs, w')"
  using assms
proof (induction hs arbitrary: tr w)
  case Nil
  then show ?case by simp
next
  case (Cons h hs)
  show ?case
  proof (cases "call h a w")
    case (Returned w1)
    with Cons.prems have "forEach call hs a w1 = Returned w'" by simp
    from Cons.IH [OF this, of "tr @ [(h, a)]"] Returned show ?thesis
      by (simp add: traced_Returned)
  next
    case (Threw y w1)
    with Cons.prems show ?thesis by simp
  qed
qed

lemma forEach_traced_of_Threw:
  assumes "forEach call pre a w = Returned w1" and "call h a w1 = Threw x w'"
  shows "forEach (traced call) (pre @ h # post) a (tr, w) =
           Threw x (tr @ map (\<lambda>h. (h, a)) (pre @ [h]), w')"
  using assms(1)
proof (induction pre arbitrary: tr w)
  case Nil
  with assms(2) show ?case by (simp add: traced_Threw)
next
  case (Cons g pre)
  show ?case
  proof (cases "call g a w")
    case (Returned w2)
    with Cons.prems have "forEach call pre a w2 = Returned w1" by simp
    from Cons.IH [OF this, of "tr @ [(g, a)]"] Returned show ?thesis
      by (simp add: traced_Returned)
  next
    case (Threw y w2)
    with Cons.prems show ?thesis by simp
  qed
qed

text \<open>
  Claim C1, as the code has it. A publish invokes the handlers subscribed at that time in
  subscription order, each with the event, and each at most once per subscription: the
  handlers invoked are always an initial segment of the subscriber list. With no subscriber
  the publish returns and changes nothing. A publish that returns has invoked every
  subscriber exactly once, in subscription order. A publish that raises an error has
  stopped at a subscriber that raised this very error in the world the subscribers before
  it left: those and the raising one have been invoked, and no subscriber after it is.
  Conversely, when the subscribers all return in turn the publish returns, and when the
  subscribers before one return in turn and that one then raises, the publish raises its
  error after invoking exactly these.
\<close>

theorem emitEvent_delivery:
  "(eventEmitters svc = [] \<longrightarrow> emitEvent (traced call) now t p svc ([], w) = Returned ([], w))
 \<and> (\<exists>k \<le> length (eventEmitters svc).
       invoked (emitEvent (traced call) now t p svc ([], w)) =
       map (\<lambda>h. (h, \<lparr>type = t, payload = p, timestamp = now, source = Backend\<rparr>)) (take k (eventEmitters svc)))
 \<and> (emitEvent (traced call) now t p svc ([], w) = Returned (tr', w') \<longrightarrow>
      tr' = map (\<lambda>h. (h, \<lparr>type = t, payload = p, timestamp = now, source = Backend\<rparr>)) (eventEmitters svc)
    \<and> emitEvent call now t p svc w = Returned w')
 \<and> (emitEvent (traced call) now t p svc ([], w) = Threw x (tr', w') \<longrightarrow>
      (\<exists>pre h post w1. eventEmitters svc = pre @ h # post
         \<and> tr' = map (\<lambda>h. (h, \<lparr>type = t, payload = p, timestamp = now, source = Backend\<rparr>)) (pre @ [h])
         \<and> forEach call pre \<lparr>type = t, payload = p, timestamp = now, source = Backend\<rparr> w = Returned w1
         \<and> call h \<lparr>type = t, payload = p, timestamp = now, source = Backend\<rparr> w1 = Threw x w'))
 \<and> (emitEvent call now t p svc w = Returned w2 \<longrightarrow>
      emitEvent (traced call) now t p svc ([], w) =
        Returned (map (\<lambda>h. (h, \<lparr>type = t, payload = p, timestamp = now, source = Backend\<rparr>)) (eventEmitters svc), w2))
 \<and> (eventEmitters svc = pre2 @ h2 # post2
      \<and> forEach call pre2 \<lparr>type = t, payload = p, timestamp = now, source = Backend\<rparr> w = Returned w3
      \<and> call h2 \<lparr>type = t, payload = p, timestamp = now, source = Backend\<rparr> w3 = Threw x2 w4 \<longrightarrow>
      emitEvent (traced call) now t p svc ([], w) =
        Threw x2 (map (\<lambda>h. (h, \<lparr>type = t, payload = p, timestamp = now, source = Backend\<rparr>)) (pre2 @ [h2]), w4)
    \<and> emitEvent call now t p svc w = Threw x2 w4)"
proof -
  let ?ev = "\<lparr>type = t, payload = p, timestamp = now, source = Backend\<rparr>"
  let ?hs = "eventEmitters svc"
  have e: "emitEvent (traced call) now t p svc ([], w) = forEach (traced call) ?hs ?ev ([], w)"
    by (simp add: emitEvent_def Let_def)
  have u: "emitEvent call now t p svc w = forEach call ?hs ?ev w"
    by (simp add: emitEvent_def Let_def)
  have 1: "?hs = [] \<longrightarrow> emitEvent (traced call) now t p svc ([], w) = Returned ([], w)"
    unfolding e by simp
  have 2: "\<exists>k \<le> length ?hs.
       invoked (emitEvent (traced call) now t p svc ([], w)) = map (\<lambda>h. (h, ?ev)) (take k ?hs)"
    unfolding e using forEach_traced_prefix [of ?hs call ?ev "[]" w] by simp
  have 3: "emitEvent (traced call) now t p svc ([], w) = Returned (tr', w') \<longrightarrow>
      tr' = map (\<lambda>h. (h, ?ev)) ?hs \<and> emitEvent call now t p svc w = Returned w'"
    unfolding e u using forEach_traced_Returned [of call ?hs ?ev "[]" w tr' w'] by simp
  have 4: "emitEvent (traced call) now t p svc ([], w) = Threw x (tr', w') \<longrightarrow>
      (\<exists>pre h post w1. ?hs = pre @ h # post \<and> tr' = map (\<lambda>h. (h, ?ev)) (pre @ [h])
         \<and> forEach call pre ?ev w = Returned w1 \<and> call h ?ev w1 = Threw x w')"
    unfolding e using forEach_traced_Threw [of call ?hs ?ev "[]" w x tr' w'] by simp
  have 5: "emitEvent call now t p svc w = Returned w2 \<longrightarrow>
      emitEvent (traced call) now t p svc ([], w) = Returned (map (\<lambda>h. (h, ?ev)) ?hs, w2)"
    unfolding e u using forEach_traced_of_Returned [of call ?hs ?ev w w2 "[]"] by simp
  have 6: "?hs = pre2 @ h2 # post2 \<and> forEach call pre2 ?ev w = Returned w3
      \<and> call h2 ?ev w3 = Threw x2 w4 \<longrightarrow>
      emitEvent (traced call) now t p svc ([], w) =
        Threw x2 (map (\<lambda>h. (h, ?ev)) (pre2 @ [h2]), w4)
    \<and> emitEvent call now t p svc w = Threw x2 w4"
  proof (intro impI, elim conjE)
    assume hs: "?hs = pre2 @ h2 # post2"
      and pre: "forEach call pre2 ?ev w = Returned w3"
      and h: "call h2 ?ev w3 = Threw x2 w4"
    have t: "emitEvent (traced call) now t p svc ([], w) =
        Threw x2 (map (\<lambda>h. (h, ?ev)) (pre2 @ [h2]), w4)"
      unfolding e hs using forEach_traced_of_Threw [OF pre h, of post2 "[]"] by simp
    have "forEach call (pre2 @ h2 # post2) ?ev w = Threw x2 w4"
      using pre h by (induction pre2 arbitrary: w) (auto split: outcome.splits)
    then have "emitEvent call now t p svc w = Threw x2 w4" unfolding u hs .
    with t show "emitEvent (traced call) now t p svc ([], w) =
        Threw x2 (map (\<lambda>h. (h, ?ev)) (pre2 @ [h2]), w4)
      \<and> emitEvent call now t p svc w = Threw x2 w4" by simp
  qed
  from 1 2 3 4 5 6 show ?thesis by blast
qed

text \<open>
  A handler that raises only once the world has been changed by the handler before it:
  the publish delivers to both, raises the error of the second and skips the third.
\<close>

theorem emitEvent_delivery_witness:
  "emitEvent (traced (\<lambda>h ev w. Returned (Suc w) :: (string, nat) outcome)) 7 Created ''dto''
      \<lparr>eventEmitters = [10, 11 :: nat]\<rparr> ([], 0)
   = Returned ([(10, \<lparr>type = Created, payload = ''dto'', timestamp = 7, source = Backend\<rparr>),
                (11, \<lparr>type = Created, payload = ''dto'', timestamp = 7, source = Backend\<rparr>)], 2)
   \<and> forEach (\<lambda>h ev w. if h = 11 \<and> 0 < w then Threw ''boom'' w else Returned (Suc w)) [10 :: nat]
        \<lparr>type = Created, payload = ''dto'', timestamp = 7, source = Backend\<rparr> 0
      = Returned (Suc 0)
   \<and> emitEvent (traced (\<lambda>h ev w. if h = 11 \<and> 0 < w then Threw ''boom'' w else Returned (Suc w)))
      7 Created ''dto'' \<lparr>eventEmitters = [10, 11, 12 :: nat]\<rparr> ([], 0)
   = Threw ''boom'' ([(10, \<lparr>type = Created, payload = ''dto'', timestamp = 7, source = Backend\<rparr>),
                     (11, \<lparr>type = Created, payload = ''dto'', timestamp = 7, source = Backend\<rparr>)],
                    Suc 0)"
proof -
  let ?ev = "\<lparr>type = Created, payload = ''dto'', timestamp = 7, source = Backend\<rparr>"
  let ?ok = "\<lambda>(h::nat) (ev :: string SharedEvent) (w::nat). Returned (Suc w) :: (string, nat) outcome"
  let ?late = "\<lambda>(h::nat) (ev :: string SharedEvent) (w::nat).
      if h = 11 \<and> 0 < w then Threw ''boom'' w else Returned (Suc w)"
  have r: "emitEvent ?ok 7 Created ''dto'' \<lparr>eventEmitters = [10, 11]\<rparr> 0 = Returned 2"
    by (simp add: emitEvent_def Let_def)
  have p: "forEach ?late [10] ?ev 0 = Returned (Suc 0)" by simp
  have h: "?late 11 ?ev (Suc 0) = Threw ''boom'' (Suc 0)" by simp
  have l: "eventEmitters \<lparr>eventEmitters = [10, 11, 12 :: nat]\<rparr> = [10] @ 11 # [12]" by simp
  from emitEvent_delivery [where svc = "\<lparr>eventEmitters = [10, 11]\<rparr>" and call = ?ok
      and now = 7 and t = Created and p = "''dto''" and w = 0 and ?w2.0 = 2
      and tr' = "[]" and w' = 0 and x = "''''" and ?pre2.0 = "[]" and ?h2.0 = 10
      and ?post2.0 = "[11]" and ?w3.0 = 0 and ?x2.0 = "''''" and ?w4.0 = 0] r
  have a: "emitEvent (traced ?ok) 7 Created ''dto'' \<lparr>eventEmitters = [10, 11]\<rparr> ([], 0)
      = Returned ([(10, ?ev), (11, ?ev)], 2)"
    by simp
  from emitEvent_delivery [where svc = "\<lparr>eventEmitters = [10, 11, 12]\<rparr>" and call = ?late
      and now = 7 and t = Created and p = "''dto''" and w = 0 and ?pre2.0 = "[10]"
      and ?h2.0 = 11 and ?post2.0 = "[12]" and ?w3.0 = "Suc 0" and ?x2.0 = "''boom''"
      and ?w4.0 = "Suc 0" and tr' = "[]" and w' = 0 and x = "''''" and ?w2.0 = 0] l p h
  have b: "emitEvent (traced ?late) 7 Created ''dto'' \<lparr>eventEmitters = [10, 11, 12]\<rparr> ([], 0)
      = Threw ''boom'' ([(10, ?ev), (11, ?ev)], Suc 0)"
    by simp
  from a p b show ?thesis by simp
qed

text \<open>
  The claim as stated fails when a subscriber raises: \<^verbatim>\<open>forEach\<close> has no handler around
  the call, so the subscriber after the raising one is not invoked.
\<close>

theorem emitEvent_delivery_counterexample:
  "invoked (emitEvent (traced (\<lambda>h ev w. if h = 10 then Threw ''boom'' w else Returned w))
      7 Created ''dto'' \<lparr>eventEmitters = [10, 11 :: nat]\<rparr> ([], ()))
   = [(10, \<lparr>type = Created, payload = ''dto'', timestamp = 7, source = Backend\<rparr>)]
   \<and> (11, \<lparr>type = Created, payload = ''dto'', timestamp = 7, source = Backend\<rparr>)
      \<notin> set (invoked (emitEvent (traced (\<lambda>h ev w. if h = 10 then Threw ''boom'' w else Returned w))
      7 Created ''dto'' \<lparr>eventEmitters = [10, 11 :: nat]\<rparr> ([], ())))
   \<and> emitEvent (traced (\<lambda>h ev w. if h = 10 then Threw ''boom'' w else Returned w))
      7 Created ''dto'' \<lparr>eventEmitters = [10, 11 :: nat]\<rparr> ([], ())
   = Threw ''boom'' ([(10, \<lparr>type = Created, payload = ''dto'', timestamp = 7, source = Backend\<rparr>)], ())"
  by (simp add: emitEvent_def traced_def invoked_def Let_def)

section \<open>Properties of subscription\<close>

lemma forEach_traced_only:
  "set (invoked (forEach (traced call) hs a (tr, w))) \<subseteq> set tr \<union> (\<lambda>h. (h, a)) ` set hs"
proof -
  obtain k where "invoked (forEach (traced call) hs a (tr, w)) = tr @ map (\<lambda>h. (h, a)) (take k hs)"
    using forEach_traced_prefix [of hs call a tr w] by blast
  moreover have "set (take k hs) \<subseteq> set hs" by (rule set_take_subset)
  ultimately show ?thesis by auto
qed

text \<open>
  Claim C8, as the code has it. \<open>subscribe\<close> of the notification manager appends the
  listener and returns an unsubscribe function; calling it, at any later state of the
  manager, removes every occurrence of that listener from the listener list and keeps the
  other listeners in their order. The next notification does not invoke the listener; it
  invokes the other listeners in order, all of them when it returns, and when it raises,
  those up to and including the one that raised its error. \<open>onEvent\<close> of the services
  appends the handler and returns nothing: a service has no unsubscribe function, and a
  publish after \<open>onEvent\<close> that returns has invoked the earlier handlers and the new one.
\<close>

theorem subscribe_unsubscribe:
  "subscribe l m = (Unsubscribe l, m\<lparr>listeners := listeners m @ [l]\<rparr>)
 \<and> invoke (fst (subscribe l m)) m2 = Inr (m2\<lparr>listeners := filter (\<lambda>x. x \<noteq> l) (listeners m2)\<rparr>)
 \<and> (invoke (fst (subscribe l m)) m2 = Inr m3 \<longrightarrow>
      l \<notin> set (listeners m3)
    \<and> listeners m3 = filter (\<lambda>x. x \<noteq> l) (listeners m2)
    \<and> notifications m3 = notifications m2
    \<and> idCounter m3 = idCounter m2
    \<and> (\<forall>a. (l, a) \<notin> set (invoked (notifyListeners (traced call) m3 ([], w))))
    \<and> (\<forall>tr' w'. notifyListeners (traced call) m3 ([], w) = Returned (tr', w') \<longrightarrow>
         tr' = map (\<lambda>h. (h, notifications m2)) (filter (\<lambda>x. x \<noteq> l) (listeners m2))
       \<and> notifyListeners call m3 w = Returned w')
    \<and> (\<forall>x tr' w'. notifyListeners (traced call) m3 ([], w) = Threw x (tr', w') \<longrightarrow>
         (\<exists>pre h post w1. filter (\<lambda>x. x \<noteq> l) (listeners m2) = pre @ h # post
            \<and> tr' = map (\<lambda>h. (h, notifications m2)) (pre @ [h])
            \<and> forEach call pre (notifications m2) w = Returned w1
            \<and> call h (notifications m2) w1 = Threw x w'))
    \<and> (\<forall>w'. notifyListeners call m3 w = Returned w' \<longrightarrow>
         notifyListeners (traced call) m3 ([], w) =
           Returned (map (\<lambda>h. (h, notifications m2)) (filter (\<lambda>x. x \<noteq> l) (listeners m2)), w')))
 \<and> onEvent l svc = (Void, svc\<lparr>eventEmitters := eventEmitters svc @ [l]\<rparr>)
 \<and> (emitEvent (traced ecall) now t p (snd (onEvent l svc)) ([], ew) = Returned (etr, ew') \<longrightarrow>
      etr = map (\<lambda>h. (h, \<lparr>type = t, payload = p, timestamp = now, source = Backend\<rparr>)) (eventEmitters svc @ [l]))"
proof -
  have s: "subscribe l m = (Unsubscribe l, m\<lparr>listeners := listeners m @ [l]\<rparr>)"
    by (simp add: subscribe_def)
  have i: "invoke (fst (subscribe l m)) m2 =
           Inr (m2\<lparr>listeners := filter (\<lambda>x. x \<noteq> l) (listeners m2)\<rparr>)"
    by (simp add: s)
  have o: "onEvent l svc = (Void, svc\<lparr>eventEmitters := eventEmitters svc @ [l]\<rparr>)"
    by (simp add: onEvent_def)
  have v: "emitEvent (traced ecall) now t p (snd (onEvent l svc)) ([], ew) = Returned (etr, ew') \<longrightarrow>
      etr = map (\<lambda>h. (h, \<lparr>type = t, payload = p, timestamp = now, source = Backend\<rparr>)) (eventEmitters svc @ [l])"
    using forEach_traced_Returned [of ecall "eventEmitters svc @ [l]" "\<lparr>type = t, payload = p, timestamp = now, source = Backend\<rparr>" "[]" ew etr ew']
    by (simp add: o emitEvent_def Let_def)
  have after: "l \<notin> set (listeners m3)
    \<and> listeners m3 = filter (\<lambda>x. x \<noteq> l) (listeners m2)
    \<and> notifications m3 = notifications m2
    \<and> idCounter m3 = idCounter m2
    \<and> (\<forall>a. (l, a) \<notin> set (invoked (notifyListeners (traced call) m3 ([], w))))
    \<and> (\<forall>tr' w'. notifyListeners (traced call) m3 ([], w) = Returned (tr', w') \<longrightarrow>
         tr' = map (\<lambda>h. (h, notifications m2)) (filter (\<lambda>x. x \<noteq> l) (listeners m2))
       \<and> notifyListeners call m3 w = Returned w')
    \<and> (\<forall>x tr' w'. notifyListeners (traced call) m3 ([], w) = Threw x (tr', w') \<longrightarrow>
         (\<exists>pre h post w1. filter (\<lambda>x. x \<noteq> l) (listeners m2) = pre @ h # post
            \<and> tr' = map (\<lambda>h. (h, notifications m2)) (pre @ [h])
            \<and> forEach call pre (notifications m2) w = Returned w1
            \<and> call h (notifications m2) w1 = Threw x w'))
    \<and> (\<forall>w'. notifyListeners call m3 w = Returned w' \<longrightarrow>
         notifyListeners (traced call) m3 ([], w) =
           Returned (map (\<lambda>h. (h, notifications m2)) (filter (\<lambda>x. x \<noteq> l) (listeners m2)), w'))"
    if "invoke (fst (subscribe l m)) m2 = Inr m3"
  proof -
    from that i have m3: "m3 = m2\<lparr>listeners := filter (\<lambda>x. x \<noteq> l) (listeners m2)\<rparr>" by simp
    have ls: "listeners m3 = filter (\<lambda>x. x \<noteq> l) (listeners m2)" by (simp add: m3)
    have ns: "notifications m3 = notifications m2" by (simp add: m3)
    have ic: "idCounter m3 = idCounter m2" by (simp add: m3)
    have gone: "l \<notin> set (listeners m3)" by (simp add: ls)
    have never: "\<forall>a. (l, a) \<notin> set (invoked (notifyListeners (traced call) m3 ([], w)))"
      using forEach_traced_only [of call "listeners m3" "notifications m3" "[]" w] gone
      by (auto simp: notifyListeners_def)
    have ret: "\<forall>tr' w'. notifyListeners (traced call) m3 ([], w) = Returned (tr', w') \<longrightarrow>
         tr' = map (\<lambda>h. (h, notifications m2)) (filter (\<lambda>x. x \<noteq> l) (listeners m2))
       \<and> notifyListeners call m3 w = Returned w'"
    proof (intro allI impI)
      fix tr' w'
      assume "notifyListeners (traced call) m3 ([], w) = Returned (tr', w')"
      then have "forEach (traced call) (listeners m3) (notifications m3) ([], w) = Returned (tr', w')"
        by (simp add: notifyListeners_def)
      from forEach_traced_Returned [OF this]
      show "tr' = map (\<lambda>h. (h, notifications m2)) (filter (\<lambda>x. x \<noteq> l) (listeners m2))
          \<and> notifyListeners call m3 w = Returned w'"
        by (simp add: notifyListeners_def ls ns)
    qed
    have thr: "\<forall>x tr' w'. notifyListeners (traced call) m3 ([], w) = Threw x (tr', w') \<longrightarrow>
         (\<exists>pre h post w1. filter (\<lambda>x. x \<noteq> l) (listeners m2) = pre @ h # post
            \<and> tr' = map (\<lambda>h. (h, notifications m2)) (pre @ [h])
            \<and> forEach call pre (notifications m2) w = Returned w1
            \<and> call h (notifications m2) w1 = Threw x w')"
    proof (intro allI impI)
      fix x tr' w'
      assume "notifyListeners (traced call) m3 ([], w) = Threw x (tr', w')"
      then have "forEach (traced call) (listeners m3) (notifications m3) ([], w) = Threw x (tr', w')"
        by (simp add: notifyListeners_def)
      from forEach_traced_Threw [OF this]
      show "\<exists>pre h post w1. filter (\<lambda>x. x \<noteq> l) (listeners m2) = pre @ h # post
            \<and> tr' = map (\<lambda>h. (h, notifications m2)) (pre @ [h])
            \<and> forEach call pre (notifications m2) w = Returned w1
            \<and> call h (notifications m2) w1 = Threw x w'"
        by (simp add: ls ns)
    qed
    have conv: "\<forall>w'. notifyListeners call m3 w = Returned w' \<longrightarrow>
         notifyListeners (traced call) m3 ([], w) =
           Returned (map (\<lambda>h. (h, notifications m2)) (filter (\<lambda>x. x \<noteq> l) (listeners m2)), w')"
    proof (intro allI impI)
      fix w'
      assume "notifyListeners call m3 w = Returned w'"
      then have "forEach call (listeners m3) (notifications m3) w = Returned w'"
        by (simp add: notifyListeners_def)
      from forEach_traced_of_Returned [OF this, of "[]"]
      show "notifyListeners (traced call) m3 ([], w) =
           Returned (map (\<lambda>h. (h, notifications m2)) (filter (\<lambda>x. x \<noteq> l) (listeners m2)), w')"
        by (simp add: notifyListeners_def ls ns)
    qed
    from gone ls ns ic never ret thr conv show ?thesis by blast
  qed
  from s i o v after show ?thesis by blast
qed

theorem subscribe_unsubscribe_witness:
  "invoke (fst (subscribe (2::nat) \<lparr>notifications = [''n''], listeners = [1], idCounter = 1\<rparr>))
      \<lparr>notifications = [''n'', ''m''], listeners = [1, 2, 3, 2], idCounter = 2\<rparr>
   = Inr \<lparr>notifications = [''n'', ''m''], listeners = [1, 3], idCounter = 2\<rparr>
   \<and> notifyListeners (\<lambda>h a w. Returned (Suc w) :: (string, nat) outcome)
        \<lparr>notifications = [''n'', ''m''], listeners = [1, 3 :: nat], idCounter = 2\<rparr> 0
     = Returned 2
   \<and> notifyListeners (traced (\<lambda>h a w. Returned (Suc w) :: (string, nat) outcome))
        \<lparr>notifications = [''n'', ''m''], listeners = [1, 3 :: nat], idCounter = 2\<rparr> ([], 0)
     = Returned ([(1, [''n'', ''m'']), (3, [''n'', ''m''])], 2)
   \<and> onEvent (2::nat) \<lparr>eventEmitters = [1]\<rparr> = (Void, \<lparr>eventEmitters = [1, 2]\<rparr>)
   \<and> emitEvent (traced (\<lambda>h ev w. Returned (Suc w) :: (string, nat) outcome)) 7 Created ''dto''
        (snd (onEvent (2::nat) \<lparr>eventEmitters = [1]\<rparr>)) ([], 0)
     = Returned ([(1, \<lparr>type = Created, payload = ''dto'', timestamp = 7, source = Backend\<rparr>),
                  (2, \<lparr>type = Created, payload = ''dto'', timestamp = 7, source = Backend\<rparr>)], 2)"
proof -
  let ?m2 = "\<lparr>notifications = [''n'', ''m''], listeners = [1, 2, 3, 2 :: nat], idCounter = 2 :: nat\<rparr>"
  let ?m3 = "\<lparr>notifications = [''n'', ''m''], listeners = [1, 3 :: nat], idCounter = 2 :: nat\<rparr>"
  let ?ev = "\<lparr>type = Created, payload = ''dto'', timestamp = 7, source = Backend\<rparr>"
  let ?ok = "\<lambda>(h::nat) (a :: string list) (w::nat). Returned (Suc w) :: (string, nat) outcome"
  let ?eok = "\<lambda>(h::nat) (ev :: string SharedEvent) (w::nat). Returned (Suc w) :: (string, nat) outcome"
  have i: "invoke (fst (subscribe (2::nat) \<lparr>notifications = [''n''], listeners = [1], idCounter = 1\<rparr>))
      ?m2 = Inr ?m3"
    by (simp add: subscribe_def)
  have r: "notifyListeners ?ok ?m3 0 = Returned 2"
    by (simp add: notifyListeners_def)
  have e: "emitEvent (traced ?eok) 7 Created ''dto'' (snd (onEvent (2::nat) \<lparr>eventEmitters = [1]\<rparr>))
      ([], 0) = Returned ([(1, ?ev), (2, ?ev)], 2)"
    by (simp add: emitEvent_def onEvent_def traced_def Let_def)
  note T = subscribe_unsubscribe [where l = "2::nat"
      and m = "\<lparr>notifications = [''n''], listeners = [1], idCounter = 1\<rparr>"
      and ?m2.0 = ?m2 and ?m3.0 = ?m3 and call = ?ok and w = 0
      and svc = "\<lparr>eventEmitters = [1]\<rparr>" and ecall = ?eok and now = 7 and t = Created
      and p = "''dto''" and ew = 0 and etr = "[(1, ?ev), (2, ?ev)]" and ew' = 2]
  note after = T [THEN conjunct2, THEN conjunct2, THEN conjunct1, THEN mp, OF i]
  note conv = after [THEN conjunct2, THEN conjunct2, THEN conjunct2, THEN conjunct2,
      THEN conjunct2, THEN conjunct2, THEN conjunct2, THEN spec, THEN mp, OF r]
  note on = T [THEN conjunct2, THEN conjunct2, THEN conjunct2, THEN conjunct1]
  have n: "notifyListeners (traced ?ok) ?m3 ([], 0) =
      Returned ([(1, [''n'', ''m'']), (3, [''n'', ''m''])], 2)"
    using conv by simp
  have o: "onEvent (2::nat) \<lparr>eventEmitters = [1]\<rparr> = (Void, \<lparr>eventEmitters = [1, 2]\<rparr>)"
    using on by simp
  from i r n o e show ?thesis by (intro conjI)
qed

text \<open>
  The claim as stated fails for the services: \<open>onEvent\<close> returns \<^verbatim>\<open>undefined\<close>, not an
  unsubscribe function, and the handler it has appended is invoked by the next publish.
\<close>

theorem subscribe_unsubscribe_counterexample:
  "\<not> (\<exists>l. fst (onEvent (2::nat) \<lparr>eventEmitters = [1]\<rparr>) = Unsubscribe l)
   \<and> onEvent (2::nat) \<lparr>eventEmitters = [1]\<rparr> = (Void, \<lparr>eventEmitters = [1, 2]\<rparr>)
   \<and> invoked (emitEvent (traced (\<lambda>h ev w. Returned w :: (string, unit) outcome)) 7 Deleted ''dto''
        (snd (onEvent (2::nat) \<lparr>eventEmitters = [1]\<rparr>)) ([], ()))
     = [(1, \<lparr>type = Deleted, payload = ''dto'', timestamp = 7, source = Backend\<rparr>),
        (2, \<lparr>type = Deleted, payload = ''dto'', timestamp = 7, source = Backend\<rparr>)]"
  by (simp add: onEvent_def emitEvent_def traced_def invoked_def Let_def)

end
